theory Spec2Isabelle
  imports Main "HOL-Library.AList"
begin

text \<open>
  A shallow embedding of the interception and resolution engine of MockMate: the
  certificate cache, the issuing of leaf certificates, the request matcher and scenario
  resolver, the two request handlers that decide between mock and upstream, the framing
  of requests inside the MITM tunnel, and the upstream forwarder. The first part embeds
  the TypeScript sources function by function; the second part proves the properties.
\<close>

section \<open>The program\<close>

subsection \<open>Certificate cache (services/cert-cache.ts)\<close>

text \<open>
  \<^verbatim>\<open>CertificateData\<close> (services/certs/types.ts) is a pair of PEM strings.
\<close>

record CertificateData =
  cert :: string
  privateKey :: string

text \<open>
  The class \<^verbatim>\<open>CertCache\<close>. Its \<^verbatim>\<open>Map<string, CertificateData>\<close> iterates in
  insertion order, so it is an association list with distinct keys, oldest entry first:
  \<^verbatim>\<open>get\<close> is \<^const>\<open>map_of\<close>, \<^verbatim>\<open>delete\<close> is \<^const>\<open>AList.delete\<close>, and \<^verbatim>\<open>set\<close> is
  \<^const>\<open>AList.update\<close> (a present key keeps its position, a new key goes to the end).
  \<^verbatim>\<open>maxSize\<close> is whatever number the caller passed: nothing checks that it is positive.
\<close>

record CertCache =
  cache :: "(string \<times> CertificateData) list"
  maxSize :: int
  caData :: CertificateData
  hits :: nat
  misses :: nat



text \<open>
  The eviction block of \<^verbatim>\<open>getCert\<close>:
  \<^verbatim>\<open>if (this.cache.size >= this.maxSize) {
    const oldestKey = this.cache.keys().next().value;
    if (oldestKey) { this.cache.delete(oldestKey); } }\<close>
  It returns the key it deleted, if any. \<^verbatim>\<open>if (oldestKey)\<close> is a truthiness test: it
  fails for \<^verbatim>\<open>undefined\<close> (empty map) and also for the empty string.
\<close>

definition evictOldest :: "CertCache \<Rightarrow> string option \<times> CertCache" where
  "evictOldest c =
     (if int (length (cache c)) \<ge> maxSize c then
        (case cache c of
           [] \<Rightarrow> (None, c)
         | (oldestKey, v) # rest \<Rightarrow>
             if oldestKey \<noteq> [] then (Some oldestKey, c\<lparr>cache := AList.delete oldestKey (cache c)\<rparr>)
             else (None, c))
      else (None, c))"



text \<open>The read-only \<^verbatim>\<open>stats()\<close>: size, maxSize, hits, misses.\<close>

definition stats :: "CertCache \<Rightarrow> nat \<times> int \<times> nat \<times> nat" where
  "stats c = (length (cache c), maxSize c, hits c, misses c)"









subsection \<open>Core types (types.ts)\<close>

text \<open>
  A scenario body is \<^verbatim>\<open>any\<close> JSON value. JavaScript objects that are used as dictionaries
  (headers, path parameters) are association lists in insertion order.
\<close>

datatype json =
  JNull | JBool bool | JNum int | JStr string | JArr "json list" | JObj "(string \<times> json) list"

type_synonym headers = "(string \<times> string) list"

text \<open>
  \<^verbatim>\<open>Scenario\<close>, with the fields the resolution reads or returns. Optional fields
  (\<^verbatim>\<open>headers?\<close>, \<^verbatim>\<open>responseHeaders?\<close>, \<^verbatim>\<open>delay?\<close>) are \<open>None\<close> when undefined.
\<close>

record Scenario =
  name :: string
  statusCode :: int
  body :: json
  headers :: "headers option"
  responseHeaders :: "headers option"
  delay :: "int option"

text \<open>
  \<^verbatim>\<open>Resource\<close>. The request method is a string cast to \<^verbatim>\<open>HttpMethod\<close>, so methods are
  strings; the field \<open>httpMethod\<close> is the source's \<^verbatim>\<open>method\<close>, \<open>resourceId\<close> its \<^verbatim>\<open>id\<close>.
  \<^verbatim>\<open>Project\<close> likewise, with \<open>projectId\<close> for \<^verbatim>\<open>id\<close>.
\<close>

record Resource =
  resourceId :: string
  httpMethod :: string
  path :: string
  scenarios :: "Scenario list"
  passthrough :: "bool option"


subsection \<open>Request matcher (services/matcher.ts)\<close>

type_synonym PathParams = "(string \<times> string) list"

record MatchResult =
  resource :: Resource
  params :: PathParams

text \<open>
  \<^verbatim>\<open>ResponseConfig\<close> has the five fields \<^verbatim>\<open>statusCode, headers, body, delay, scenario\<close>.
  Both request handlers also read a property \<^verbatim>\<open>passthrough\<close> of the object; the interface
  declares none, so the read yields what the object holds: \<open>rc_passthrough\<close> is that
  property, \<open>None\<close> when the object has no such property (\<^verbatim>\<open>undefined\<close>).
\<close>

record ResponseConfig =
  rc_statusCode :: int
  rc_headers :: headers
  rc_body :: json
  rc_delay :: int
  rc_scenario :: string
  rc_passthrough :: "bool option"

text \<open>
  Regular expressions. \<^verbatim>\<open>pathToRegex\<close> builds the source text of a regular expression and
  hands it to \<^verbatim>\<open>new RegExp\<close>. The model of the constructor reads the syntax that
  \<^verbatim>\<open>pathToRegex\<close> can produce: \<^verbatim>\<open>^\<close>, then literal characters, escaped metacharacters and
  groups \<^verbatim>\<open>([^/]+)\<close>, then \<^verbatim>\<open>$\<close>. Any other source text is \<open>None\<close>.
  A compiled expression is the list of its items between the two anchors. Strings are
  lists of characters; every character the expressions single out is an ASCII character.
\<close>

datatype rx_item = RxChar char | RxGroup

type_synonym RegExp = "rx_item list"

definition backslash :: char where
  "backslash = CHR 0x5C"

text \<open>The character class of the first \<^verbatim>\<open>replace\<close>: \<^verbatim>\<open>[.+*?^${}()|[\]\\]\<close>.\<close>

definition regex_special :: "char \<Rightarrow> bool" where
  "regex_special c = (c \<in> set ''.+*?^${}()|[]'' \<or> c = backslash)"

definition ident_start :: "char \<Rightarrow> bool" where
  "ident_start c = (c \<in> set ''abcdefghijklmnopqrstuvwxyzABCDEFGHIJKLMNOPQRSTUVWXYZ_'')"

definition is_digit :: "char \<Rightarrow> bool" where
  "is_digit c = (c \<in> set ''0123456789'')"

definition ident_char :: "char \<Rightarrow> bool" where
  "ident_char c = (ident_start c \<or> is_digit c)"

text \<open>\<^verbatim>\<open>path.replace(/[.+*?^${}()|[\]\\]/g, '\\$&')\<close>: a backslash before each metacharacter.\<close>

fun escapeSpecial :: "string \<Rightarrow> string" where
  "escapeSpecial [] = []"
| "escapeSpecial (c # cs) =
     (if regex_special c then backslash # c # escapeSpecial cs else c # escapeSpecial cs)"

text \<open>
  \<^verbatim>\<open>pattern.replace(/:([a-zA-Z_][a-zA-Z0-9_]*)/g, (_, paramName) => {
     paramNames.push(paramName); return '([^/]+)'; })\<close>:
  left to right, each colon followed by an identifier (taken greedily) becomes a group and
  its identifier is pushed. The result is the new text and the names pushed.
\<close>

function replaceParams :: "string \<Rightarrow> string \<times> string list" where
  "replaceParams [] = ([], [])"
| "replaceParams (c # cs) =
     (if c = CHR '':'' \<and> cs \<noteq> [] \<and> ident_start (hd cs) then
        (let r = replaceParams (dropWhile ident_char cs)
         in (''([^/]+)'' @ fst r, takeWhile ident_char cs # snd r))
      else
        (let r = replaceParams cs in (c # fst r, snd r)))"
  by pat_completeness auto
termination
  by (relation "measure length") (auto simp: less_Suc_eq_le length_dropWhile_le)

text \<open>The body of a regular expression source after \<^verbatim>\<open>^\<close>, up to and including the final \<^verbatim>\<open>$\<close>.\<close>

function parseItems :: "string \<Rightarrow> RegExp option" where
  "parseItems [] = None"
| "parseItems (c # cs) =
     (if c = CHR ''$'' then (if cs = [] then Some [] else None)
      else if c = backslash then
        (case cs of
           [] \<Rightarrow> None
         | d # ds \<Rightarrow> if regex_special d then map_option (Cons (RxChar d)) (parseItems ds) else None)
      else if c = CHR ''('' then
        (if take 6 cs = ''[^/]+)'' then map_option (Cons RxGroup) (parseItems (drop 6 cs)) else None)
      else if regex_special c then None
      else map_option (Cons (RxChar c)) (parseItems cs))"
  by pat_completeness auto
termination
  by (relation "measure length") auto

definition RegExp_new :: "string \<Rightarrow> RegExp option" where
  "RegExp_new source =
     (case source of
        [] \<Rightarrow> None
      | c # cs \<Rightarrow> if c = CHR ''^'' then parseItems cs else None)"

text \<open>
  Matching an anchored expression against a whole string, as a backtracking matcher does:
  a literal takes one equal character; a group \<^verbatim>\<open>([^/]+)\<close> first takes the longest run of
  characters other than \<^verbatim>\<open>/\<close> and gives characters back one by one, down to one character,
  until the rest of the expression matches; \<^verbatim>\<open>$\<close> accepts only the end of the string.
  The result is the list of captures \<^verbatim>\<open>match[1..]\<close>, or \<open>None\<close> for \<^verbatim>\<open>null\<close>.
\<close>

fun firstFrom :: "(nat \<Rightarrow> 'a option) \<Rightarrow> nat \<Rightarrow> 'a option" where
  "firstFrom f 0 = None"
| "firstFrom f (Suc k) = (case f (Suc k) of Some r \<Rightarrow> Some r | None \<Rightarrow> firstFrom f k)"

primrec rx_match :: "RegExp \<Rightarrow> string \<Rightarrow> string list option" where
  "rx_match [] s = (if s = [] then Some [] else None)"
| "rx_match (it # its) s =
     (case it of
        RxChar c \<Rightarrow>
          (case s of [] \<Rightarrow> None | d # ds \<Rightarrow> if d = c then rx_match its ds else None)
      | RxGroup \<Rightarrow>
          firstFrom (\<lambda>k. map_option (Cons (take k s)) (rx_match its (drop k s)))
            (length (takeWhile (\<lambda>d. d \<noteq> CHR ''/'') s)))"

definition regex_test :: "RegExp \<Rightarrow> string \<Rightarrow> bool" where
  "regex_test r s = (rx_match r s \<noteq> None)"

datatype matcher_error = RegExpSyntaxError

text \<open>\<^verbatim>\<open>pathToRegex\<close>: the compiled expression and the parameter names, or the constructor's error.\<close>

definition pathToRegex :: "string \<Rightarrow> matcher_error + (RegExp \<times> string list)" where
  "pathToRegex p =
     (let r = replaceParams (escapeSpecial p);
          pattern = ''^'' @ fst r @ ''$''
      in case RegExp_new pattern of
           None \<Rightarrow> Inl RegExpSyntaxError
         | Some regex \<Rightarrow> Inr (regex, snd r))"

text \<open>
  \<^verbatim>\<open>params[paramNames[i]] = match[i + 1]\<close> on an object literal. An assignment to the key
  \<^verbatim>\<open>__proto__\<close> reaches the inherited accessor, which ignores a string, so it adds no
  property; any other key is set, a repeated key keeping its first position. The loop runs
  over the names; there is one capture for each (\<open>rx_match_sound\<close> below), so the pairs are
  the \<open>zip\<close> of names and captures.
\<close>

definition setProperty :: "PathParams \<Rightarrow> string \<times> string \<Rightarrow> PathParams" where
  "setProperty obj kv = (if fst kv = ''__proto__'' then obj else AList.update (fst kv) (snd kv) obj)"

definition extractParams :: "string \<Rightarrow> string \<Rightarrow> matcher_error + PathParams" where
  "extractParams reqPath pattern =
     (case pathToRegex pattern of
        Inl e \<Rightarrow> Inl e
      | Inr (regex, paramNames) \<Rightarrow>
          (case rx_match regex reqPath of
             None \<Rightarrow> Inr []
           | Some captures \<Rightarrow> Inr (foldl setProperty [] (zip paramNames captures))))"

text \<open>\<^verbatim>\<open>p === '/' ? '/' : p.replace(/\/$/, '')\<close>: one trailing slash is removed, except from \<^verbatim>\<open>/\<close>.\<close>

definition normalizePath :: "string \<Rightarrow> string" where
  "normalizePath p =
     (if p = ''/'' then ''/''
      else if p \<noteq> [] \<and> last p = CHR ''/'' then butlast p else p)"

fun matchRequest :: "string \<Rightarrow> string \<Rightarrow> Resource list \<Rightarrow> matcher_error + MatchResult option" where
  "matchRequest meth reqPath [] = Inr None"
| "matchRequest meth reqPath (r # rs) =
     (if httpMethod r \<noteq> meth then matchRequest meth reqPath rs
      else
        (case pathToRegex (normalizePath (path r)) of
           Inl e \<Rightarrow> Inl e
         | Inr (regex, paramNames) \<Rightarrow>
             if regex_test regex (normalizePath reqPath) then
               (case extractParams (normalizePath reqPath) (normalizePath (path r)) of
                  Inl e \<Rightarrow> Inl e
                | Inr ps \<Rightarrow> Inr (Some \<lparr> resource = r, params = ps \<rparr>))
             else matchRequest meth reqPath rs))"

text \<open>The literal that \<^verbatim>\<open>resolveScenario\<close> returns for a resource without scenarios.\<close>

definition fallbackScenario :: Scenario where
  "fallbackScenario =
     \<lparr> name = ''default'', statusCode = 200, body = JObj [], headers = Some [],
       responseHeaders = None, delay = Some 0 \<rparr>"

text \<open>
  \<^verbatim>\<open>resolveScenario(resource, scenarioName?)\<close>. \<^verbatim>\<open>!scenarioName\<close> holds for \<^verbatim>\<open>undefined\<close> and for
  the empty string. The two branches of the source are kept apart as they are written.
\<close>

definition resolveScenario :: "Resource \<Rightarrow> string option \<Rightarrow> Scenario" where
  "resolveScenario res scenarioName =
     (if scenarioName = None \<or> scenarioName = Some [] then
        (case find (\<lambda>s. name s = ''default'') (scenarios res) of
           Some defaultScenario \<Rightarrow> defaultScenario
         | None \<Rightarrow>
             (case scenarios res of
                s # ss \<Rightarrow> s
              | [] \<Rightarrow> fallbackScenario))
      else
        (case find (\<lambda>s. Some (name s) = scenarioName) (scenarios res) of
           Some scenario \<Rightarrow> scenario
         | None \<Rightarrow>
             (case find (\<lambda>s. name s = ''default'') (scenarios res) of
                Some defaultScenario \<Rightarrow> defaultScenario
              | None \<Rightarrow>
                  (case scenarios res of
                     s # ss \<Rightarrow> s
                   | [] \<Rightarrow> fallbackScenario))))"

text \<open>
  \<^verbatim>\<open>buildResponse\<close>: the headers are \<^verbatim>\<open>{'Content-Type': 'application/json',
  ...scenario.responseHeaders}\<close>; the object literal has no \<^verbatim>\<open>passthrough\<close> property.
\<close>

definition buildResponse :: "Scenario \<Rightarrow> PathParams \<Rightarrow> ResponseConfig" where
  "buildResponse scenario ps =
     \<lparr> rc_statusCode = statusCode scenario,
       rc_headers =
         foldl (\<lambda>h kv. AList.update (fst kv) (snd kv) h) [(''Content-Type'', ''application/json'')]
           (case responseHeaders scenario of None \<Rightarrow> [] | Some hs \<Rightarrow> hs),
       rc_body = body scenario,
       rc_delay = (case delay scenario of None \<Rightarrow> 0 | Some d \<Rightarrow> d),
       rc_scenario = name scenario,
       rc_passthrough = None \<rparr>"

text \<open>
  \<^verbatim>\<open>handleRequest\<close>: \<^verbatim>\<open>headerScenario ?? activeScenario\<close> takes the header whenever it is
  defined, the empty string included.
\<close>

definition handleRequest ::
  "string \<Rightarrow> string \<Rightarrow> Resource list \<Rightarrow> string \<Rightarrow> string option \<Rightarrow> matcher_error + ResponseConfig option" where
  "handleRequest meth reqPath resources activeScenarioName headerScenario =
     (case matchRequest meth reqPath resources of
        Inl e \<Rightarrow> Inl e
      | Inr None \<Rightarrow> Inr None
      | Inr (Some m) \<Rightarrow>
          (let scenarioName = (case headerScenario of Some h \<Rightarrow> h | None \<Rightarrow> activeScenarioName);
               scenario = resolveScenario (resource m) (Some scenarioName)
           in Inr (Some (buildResponse scenario (params m)))))"

text \<open>
  The parameters a path pattern declares, read off the pattern itself: every colon that is
  directly followed by a letter or an underscore declares the parameter named by the
  longest identifier after it, in left-to-right order.
\<close>

fun declaredParams :: "string \<Rightarrow> string list" where
  "declaredParams [] = []"
| "declaredParams (c # cs) =
     (if c = CHR '':'' \<and> cs \<noteq> [] \<and> ident_start (hd cs)
      then takeWhile ident_char cs # declaredParams cs
      else declaredParams cs)"

text \<open>
  The items of a pattern, read off the pattern itself: a group for every declared
  parameter, a literal for every other character.
\<close>

function patternItems :: "string \<Rightarrow> RegExp" where
  "patternItems [] = []"
| "patternItems (c # cs) =
     (if c = CHR '':'' \<and> cs \<noteq> [] \<and> ident_start (hd cs)
      then RxGroup # patternItems (dropWhile ident_char cs)
      else RxChar c # patternItems cs)"
  by pat_completeness auto
termination
  by (relation "measure length") (auto simp: less_Suc_eq_le length_dropWhile_le)

text \<open>
  The string an expression matches for given captures: each group replaced by its capture.
  A capture of \<^verbatim>\<open>([^/]+)\<close> is non-empty and has no slash.
\<close>

fun fill :: "RegExp \<Rightarrow> string list \<Rightarrow> string" where
  "fill [] caps = []"
| "fill (RxChar c # its) caps = c # fill its caps"
| "fill (RxGroup # its) [] = []"
| "fill (RxGroup # its) (cap # caps) = cap @ fill its caps"

definition segment :: "string \<Rightarrow> bool" where
  "segment s = (s \<noteq> [] \<and> CHR ''/'' \<notin> set s)"

definition groups :: "RegExp \<Rightarrow> nat" where
  "groups r = length (filter (\<lambda>it. it = RxGroup) r)"

subsection \<open>Request handlers (routes/mock.ts, services/proxy-handler.ts)\<close>












subsection \<open>Leaf certificates (services/certs/generator.ts)\<close>

text \<open>
  \<^verbatim>\<open>generateServerCert(ca, domains)\<close> fills a node-forge certificate object, signs it with the
  CA key and returns PEM text. The model is the certificate object as it is handed to
  \<^verbatim>\<open>cert.sign\<close>: RSA key generation, the signature and the PEM encoding belong to the
  library. A subject or issuer is a list of attributes (name, value); a subject alternative
  name is a DNS name (\<^verbatim>\<open>type: 2\<close>) or an IP address (\<^verbatim>\<open>type: 7\<close>).
\<close>

type_synonym attributes = "(string \<times> string) list"

datatype altName = DnsName string | IpAddress string

record Certificate =
  serialNumber :: string
  validityYears :: nat
  subject :: attributes
  issuer :: attributes
  basicConstraints_cA :: bool
  keyUsage :: "string list"
  extKeyUsage :: "string list"
  altNames :: "altName list"
  signingKey :: string

definition SERVER_VALIDITY_YEARS :: nat where
  "SERVER_VALIDITY_YEARS = 1"

text \<open>
  \<^verbatim>\<open>/^\d+\.\d+\.\d+\.\d+$/.test(domain)\<close>, read left to right. \<^verbatim>\<open>\d+\<close> takes the longest run of
  digits \<^verbatim>\<open>0-9\<close>, at least one; what has to follow (a dot, or the end) is never a digit, so
  giving digits back cannot turn a failure into a match.
\<close>

definition digits1 :: "string \<Rightarrow> string option" where
  "digits1 s = (if s \<noteq> [] \<and> is_digit (hd s) then Some (dropWhile is_digit s) else None)"

definition dot1 :: "string \<Rightarrow> string option" where
  "dot1 s = (if s \<noteq> [] \<and> hd s = CHR ''.'' then Some (tl s) else None)"

definition isIpPattern :: "string \<Rightarrow> bool" where
  "isIpPattern domain =
     (case Option.bind (Option.bind (Option.bind (Option.bind (Option.bind (Option.bind
             (digits1 domain) dot1) digits1) dot1) digits1) dot1) digits1 of
        None \<Rightarrow> False
      | Some rest \<Rightarrow> rest = [])"

text \<open>
  \<^verbatim>\<open>[...new Set(xs)]\<close>: a set keeps its elements in the order of their first insertion.
\<close>

definition uniqueInOrder :: "'a list \<Rightarrow> 'a list" where
  "uniqueInOrder xs = foldl (\<lambda>seen x. if x \<in> set seen then seen else seen @ [x]) [] xs"

definition toAltName :: "string \<Rightarrow> altName" where
  "toAltName domain = (if isIpPattern domain then IpAddress domain else DnsName domain)"

datatype cert_failure = InvalidPem

text \<open>
  \<open>certificateFromPem\<close> and \<open>privateKeyFromPem\<close> stand for the two parsers of the library:
  the subject attributes of the parsed certificate and the parsed key, \<open>None\<close> when the
  parser throws. \<open>serial\<close> is the random serial number drawn for this call.
\<close>

definition generateServerCert ::
  "(string \<Rightarrow> attributes option) \<Rightarrow> (string \<Rightarrow> string option) \<Rightarrow> string
     \<Rightarrow> CertificateData \<Rightarrow> string list \<Rightarrow> cert_failure + Certificate" where
  "generateServerCert certificateFromPem privateKeyFromPem serial ca domains =
     (case certificateFromPem (cert ca) of
        None \<Rightarrow> Inl InvalidPem
      | Some caSubject \<Rightarrow>
          (case privateKeyFromPem (privateKey ca) of
             None \<Rightarrow> Inl InvalidPem
           | Some caKey \<Rightarrow>
               (let defaultDomains = [''localhost'', ''127.0.0.1''];
                    allDomains = uniqueInOrder (defaultDomains @ domains)
                in Inr \<lparr> serialNumber = serial,
                         validityYears = SERVER_VALIDITY_YEARS,
                         subject = [(''commonName'', ''MockMate Server''),
                                    (''organizationName'', ''MockMate''),
                                    (''countryName'', ''US'')],
                         issuer = caSubject,
                         basicConstraints_cA = False,
                         keyUsage = [''digitalSignature'', ''keyEncipherment''],
                         extKeyUsage = [''serverAuth''],
                         altNames = map toAltName allDomains,
                         signingKey = caKey \<rparr>)))"

text \<open>
  A dotted quad in the spec's words: four non-empty runs of decimal digits separated by
  dots.
\<close>

definition numeric :: "string \<Rightarrow> bool" where
  "numeric s = (s \<noteq> [] \<and> list_all is_digit s)"

definition dottedQuad :: "string \<Rightarrow> bool" where
  "dottedQuad s =
     (\<exists>a b c d. s = a @ ''.'' @ b @ ''.'' @ c @ ''.'' @ d
        \<and> numeric a \<and> numeric b \<and> numeric c \<and> numeric d)"

subsection \<open>Request framing in the MITM tunnel (services/proxy-server.ts)\<close>

text \<open>
  A \<^verbatim>\<open>Buffer\<close> is a list of bytes, a byte a \<^typ>\<open>char\<close>. \<^verbatim>\<open>buffer.indexOf(needle)\<close> is the index of
  the first occurrence of the needle, \<open>None\<close> for \<^verbatim>\<open>-1\<close>.
\<close>

definition headerTerminator :: string where
  "headerTerminator = [CHR 0x0D, CHR 0x0A, CHR 0x0D, CHR 0x0A]"
















text \<open>
  The completeness of a buffer in the spec's words: the header terminator occurs first at
  index \<open>i\<close>, and the buffer holds at least the declared number of body bytes after it,
  where the declared length is the one the code reads from the header block (0 when it
  finds none).
\<close>

definition terminatorAt :: "string \<Rightarrow> nat \<Rightarrow> bool" where
  "terminatorAt buf i = (take 4 (drop i buf) = headerTerminator)"




subsection \<open>Upstream forwarder (services/proxy-handler.ts, services/proxy.ts)\<close>












subsubsection \<open>The forwarder of the proxy path: forwardRequest\<close>







subsubsection \<open>The forwarder of the direct-connect path: proxyRequest\<close>














subsection \<open>Example data\<close>

text \<open>The resource of the test \<^verbatim>\<open>Scenario Fallback Logic\<close> (matcher.test.ts), and one without a default scenario.\<close>

definition exampleResource :: Resource where
  "exampleResource =
     \<lparr> resourceId = ''res_1'', httpMethod = ''GET'', path = ''/api/test'',
       scenarios =
         [\<lparr> name = ''default'', statusCode = 200, body = JObj [(''scenario'', JStr ''default'')],
            headers = None, responseHeaders = None, delay = None \<rparr>,
          \<lparr> name = ''active'', statusCode = 200, body = JObj [(''scenario'', JStr ''active'')],
            headers = None, responseHeaders = None, delay = None \<rparr>,
          \<lparr> name = ''header'', statusCode = 200, body = JObj [(''scenario'', JStr ''header'')],
            headers = None, responseHeaders = None, delay = None \<rparr>],
       passthrough = None \<rparr>"

definition customResource :: Resource where
  "customResource =
     \<lparr> resourceId = ''res_2'', httpMethod = ''GET'', path = ''/api/users'',
       scenarios =
         [\<lparr> name = ''custom'', statusCode = 200, body = JObj [],
            headers = None, responseHeaders = None, delay = None \<rparr>],
       passthrough = None \<rparr>"








section \<open>Properties\<close>

subsection \<open>Certificate cache\<close>









lemma evictOldest_None:
  assumes "fst (evictOldest c) = None"
  shows "snd (evictOldest c) = c"
  using assms by (auto simp: evictOldest_def split: if_splits list.splits)

















subsection \<open>Request matcher and scenario resolution\<close>


lemma ident_not_special: "ident_char c \<Longrightarrow> \<not> regex_special c"
  by (auto simp: ident_char_def ident_start_def is_digit_def regex_special_def backslash_def)

lemma ident_not_colon: "ident_char c \<Longrightarrow> c \<noteq> CHR '':''"
  by (auto simp: ident_char_def ident_start_def is_digit_def)

lemma backslash_not_ident: "\<not> ident_char backslash"
  by (auto simp: ident_char_def ident_start_def is_digit_def backslash_def)

lemma ident_start_char: "ident_start c \<Longrightarrow> ident_char c"
  by (simp add: ident_char_def)

lemma takeWhile_escape: "takeWhile ident_char (escapeSpecial cs) = takeWhile ident_char cs"
  by (induction cs) (auto simp: ident_not_special backslash_not_ident)

lemma dropWhile_escape: "dropWhile ident_char (escapeSpecial cs) = escapeSpecial (dropWhile ident_char cs)"
  by (induction cs) (auto simp: ident_not_special backslash_not_ident)

lemma escape_hd:
  "cs \<noteq> [] \<Longrightarrow> ident_start (hd cs) \<Longrightarrow> escapeSpecial cs \<noteq> [] \<and> hd (escapeSpecial cs) = hd cs"
  by (cases cs) (auto simp: ident_not_special ident_start_char)

lemma escape_hd_conv:
  "(escapeSpecial cs \<noteq> [] \<and> ident_start (hd (escapeSpecial cs))) = (cs \<noteq> [] \<and> ident_start (hd cs))"
  using backslash_not_ident ident_start_char ident_not_special by (cases cs) auto

lemma declaredParams_skip: "declaredParams (dropWhile ident_char cs) = declaredParams cs"
  by (induction cs) (auto simp: ident_not_colon)

lemma special_not_colon: "regex_special c \<Longrightarrow> c \<noteq> CHR '':''"
  by (auto simp: regex_special_def backslash_def)

lemma backslash_not_colon: "backslash \<noteq> CHR '':''"
  by (simp add: backslash_def)

lemma names_replaceParams: "snd (replaceParams (escapeSpecial p)) = declaredParams p"
proof (induction p rule: patternItems.induct)
  case 1
  then show ?case by simp
next
  case (2 c cs)
  show ?case
  proof (cases "c = CHR '':'' \<and> cs \<noteq> [] \<and> ident_start (hd cs)")
    case True
    then have ns: "\<not> regex_special c" by (auto simp: regex_special_def backslash_def)
    have e: "escapeSpecial cs \<noteq> [] \<and> ident_start (hd (escapeSpecial cs))"
      using True by (simp add: escape_hd_conv)
    show ?thesis
      using True ns e "2.IH"(1)
      by (simp add: Let_def takeWhile_escape dropWhile_escape declaredParams_skip)
  next
    case False
    have ih: "snd (replaceParams (escapeSpecial cs)) = declaredParams cs"
      using False "2.IH"(2) by simp
    show ?thesis
    proof (cases "regex_special c")
      case True
      then show ?thesis
        using False ih special_not_colon [OF True] backslash_not_colon
        by (simp add: Let_def)
    next
      case ns: False
      show ?thesis using False ns ih by (auto simp: Let_def escape_hd_conv)
    qed
  qed
qed

lemma group_text: "''([^/]+)'' = CHR ''('' # ''[^/]+)''"
  by simp

lemma special_paren: "regex_special (CHR ''('')" "\<not> regex_special (CHR '':'')"
  by (simp_all add: regex_special_def backslash_def)

lemma backslash_special: "regex_special backslash" "backslash \<noteq> CHR ''$''" "backslash \<noteq> CHR ''(''"
  by (simp_all add: regex_special_def backslash_def)

lemma parse_replaceParams:
  "parseItems (fst (replaceParams (escapeSpecial p)) @ ''$'') = Some (patternItems p)"
proof (induction p rule: patternItems.induct)
  case 1
  then show ?case by simp
next
  case (2 c cs)
  show ?case
  proof (cases "c = CHR '':'' \<and> cs \<noteq> [] \<and> ident_start (hd cs)")
    case True
    then have ns: "\<not> regex_special c" by (auto simp: regex_special_def backslash_def)
    have e: "escapeSpecial cs \<noteq> [] \<and> ident_start (hd (escapeSpecial cs))"
      using True by (simp add: escape_hd_conv)
    have ih: "parseItems (fst (replaceParams (escapeSpecial (dropWhile ident_char cs))) @ ''$'')
        = Some (patternItems (dropWhile ident_char cs))"
      using True "2.IH"(1) by simp
    have "fst (replaceParams (escapeSpecial (c # cs)))
        = ''([^/]+)'' @ fst (replaceParams (escapeSpecial (dropWhile ident_char cs)))"
      using True ns e by (simp add: Let_def dropWhile_escape)
    then show ?thesis
      using True ih by (simp add: backslash_def)
  next
    case False
    have ih: "parseItems (fst (replaceParams (escapeSpecial cs)) @ ''$'') = Some (patternItems cs)"
      using False "2.IH"(2) by simp
    show ?thesis
    proof (cases "regex_special c")
      case True
      have "fst (replaceParams (escapeSpecial (c # cs)))
          = backslash # c # fst (replaceParams (escapeSpecial cs))"
        using True special_not_colon [OF True] backslash_not_colon by (simp add: Let_def)
      then show ?thesis
        using False True ih backslash_special by simp
    next
      case ns: False
      have "fst (replaceParams (escapeSpecial (c # cs))) = c # fst (replaceParams (escapeSpecial cs))"
        using False ns by (auto simp: Let_def escape_hd_conv)
      moreover have "c \<noteq> CHR ''$''" "c \<noteq> backslash" "c \<noteq> CHR ''(''"
        using ns by (auto simp: regex_special_def)
      ultimately show ?thesis
        using False ns ih by simp
    qed
  qed
qed

lemma pathToRegex_eq: "pathToRegex p = Inr (patternItems p, declaredParams p)"
  by (simp add: pathToRegex_def RegExp_new_def Let_def parse_replaceParams names_replaceParams)

lemma groups_patternItems: "groups (patternItems p) = length (declaredParams p)"
  by (induction p rule: patternItems.induct) (auto simp: groups_def declaredParams_skip)

lemma firstFrom_Some:
  "firstFrom f n = Some r \<Longrightarrow> \<exists>k. 1 \<le> k \<and> k \<le> n \<and> f k = Some r"
proof (induction n)
  case 0
  then show ?case by simp
next
  case (Suc n)
  then show ?case by (cases "f (Suc n)") (auto intro: le_SucI)
qed

lemma firstFrom_None:
  "firstFrom f n = None \<Longrightarrow> 1 \<le> k \<Longrightarrow> k \<le> n \<Longrightarrow> f k = None"
proof (induction n)
  case 0
  then show ?case by simp
next
  case (Suc n)
  then show ?case by (cases "f (Suc n)") (auto simp: le_Suc_eq)
qed

lemma take_run_segment:
  assumes "1 \<le> k" and "k \<le> length (takeWhile (\<lambda>d. d \<noteq> CHR ''/'') s)"
  shows "segment (take k s)"
proof -
  let ?run = "takeWhile (\<lambda>d. d \<noteq> CHR ''/'') s"
  have "take k (?run @ dropWhile (\<lambda>d. d \<noteq> CHR ''/'') s) = take k ?run"
    using assms(2) by (simp del: takeWhile_dropWhile_id)
  then have "take k s = take k ?run" by (simp only: takeWhile_dropWhile_id)
  moreover have "CHR ''/'' \<notin> set ?run" by (auto dest: set_takeWhileD)
  moreover have "?run \<noteq> []" using assms by auto
  ultimately show ?thesis
    using assms(1) by (auto simp: segment_def dest: in_set_takeD)
qed

lemma rx_match_sound:
  "rx_match r s = Some caps \<Longrightarrow> length caps = groups r \<and> s = fill r caps \<and> list_all segment caps"
proof (induction r arbitrary: s caps)
  case Nil
  then show ?case by (auto simp: groups_def split: if_splits)
next
  case (Cons it its)
  show ?case
  proof (cases it)
    case (RxChar c)
    then show ?thesis
      using Cons.prems Cons.IH by (auto simp: groups_def split: list.splits if_splits)
  next
    case RxGroup
    let ?n = "length (takeWhile (\<lambda>d. d \<noteq> CHR ''/'') s)"
    from Cons.prems RxGroup
    have "firstFrom (\<lambda>k. map_option (Cons (take k s)) (rx_match its (drop k s))) ?n = Some caps"
      by simp
    from firstFrom_Some [OF this]
    obtain k where k: "1 \<le> k" "k \<le> ?n"
      "map_option (Cons (take k s)) (rx_match its (drop k s)) = Some caps"
      by blast
    then obtain caps' where c: "rx_match its (drop k s) = Some caps'" "caps = take k s # caps'"
      by auto
    have ih: "length caps' = groups its \<and> drop k s = fill its caps' \<and> list_all segment caps'"
      using Cons.IH [OF c(1)] .
    have seg: "segment (take k s)" using take_run_segment [OF k(1) k(2)] .
    have "fill (it # its) caps = take k s @ drop k s" using ih c(2) RxGroup by simp
    then have "s = fill (it # its) caps" by simp
    moreover have "length caps = groups (it # its)" using ih c(2) RxGroup by (simp add: groups_def)
    moreover have "list_all segment caps" using ih c(2) seg by simp
    ultimately show ?thesis by blast
  qed
qed

lemma segment_run:
  assumes "segment cap"
  shows "1 \<le> length cap \<and> length cap \<le> length (takeWhile (\<lambda>d. d \<noteq> CHR ''/'') (cap @ rest))"
proof -
  have "takeWhile (\<lambda>d. d \<noteq> CHR ''/'') (cap @ rest) = cap @ takeWhile (\<lambda>d. d \<noteq> CHR ''/'') rest"
    using assms by (intro takeWhile_append2) (auto simp: segment_def)
  then show ?thesis using assms by (cases cap) (auto simp: segment_def)
qed

lemma rx_match_complete:
  "length caps = groups r \<Longrightarrow> list_all segment caps \<Longrightarrow> rx_match r (fill r caps) \<noteq> None"
proof (induction r arbitrary: caps)
  case Nil
  then show ?case by simp
next
  case (Cons it its)
  show ?case
  proof (cases it)
    case (RxChar c)
    then show ?thesis using Cons by (simp add: groups_def)
  next
    case RxGroup
    then obtain cap caps' where caps: "caps = cap # caps'"
      using Cons.prems(1) by (cases caps) (auto simp: groups_def)
    have ih: "rx_match its (fill its caps') \<noteq> None"
      using Cons.IH [of caps'] Cons.prems caps RxGroup by (simp add: groups_def)
    let ?s = "cap @ fill its caps'"
    let ?f = "\<lambda>k. map_option (Cons (take k ?s)) (rx_match its (drop k ?s))"
    have seg: "segment cap" using Cons.prems(2) caps by simp
    have some: "?f (length cap) \<noteq> None" using ih by simp
    have b: "1 \<le> length cap" "length cap \<le> length (takeWhile (\<lambda>d. d \<noteq> CHR ''/'') ?s)"
      using segment_run [OF seg, of "fill its caps'"] by simp_all
    have "firstFrom ?f (length (takeWhile (\<lambda>d. d \<noteq> CHR ''/'') ?s)) \<noteq> None"
    proof
      assume "firstFrom ?f (length (takeWhile (\<lambda>d. d \<noteq> CHR ''/'') ?s)) = None"
      from firstFrom_None [OF this b] some show False by simp
    qed
    then show ?thesis using caps RxGroup by simp
  qed
qed

lemma update_absent: "k \<notin> fst ` set al \<Longrightarrow> AList.update k v al = al @ [(k, v)]"
  by (induction al) auto

lemma fold_setProperty:
  "length ns = length caps \<Longrightarrow> distinct ns \<Longrightarrow> ''__proto__'' \<notin> set ns \<Longrightarrow>
   set ns \<inter> fst ` set acc = {} \<Longrightarrow>
   foldl setProperty acc (zip ns caps) = acc @ zip ns caps"
proof (induction ns arbitrary: caps acc)
  case Nil
  then show ?case by simp
next
  case (Cons n ns)
  then obtain cap caps' where caps: "caps = cap # caps'" by (cases caps) auto
  have n: "n \<notin> fst ` set acc" "n \<noteq> ''__proto__''" using Cons.prems by auto
  have upd: "setProperty acc (n, cap) = acc @ [(n, cap)]"
    using n by (simp add: setProperty_def update_absent)
  show ?case
    using Cons.prems caps Cons.IH [of caps' "acc @ [(n, cap)]"] upd by auto
qed

lemma matchRequest_total: "\<exists>r. matchRequest meth reqPath rs = Inr r"
  by (induction rs) (auto simp: pathToRegex_eq extractParams_def split: option.splits)

lemma handleRequest_total: "\<exists>r. handleRequest meth reqPath rs a h = Inr r"
  using matchRequest_total [of meth reqPath rs]
  by (auto simp: handleRequest_def Let_def split: option.splits)

lemma find_name_Some:
  "\<exists>s\<in>set scs. name s = n \<Longrightarrow> \<exists>s. find (\<lambda>s. name s = n) scs = Some s \<and> name s = n \<and> s \<in> set scs"
  by (induction scs) auto

lemma find_name_None: "\<not> (\<exists>s\<in>set scs. name s = n) \<Longrightarrow> find (\<lambda>s. name s = n) scs = None"
  by (induction scs) auto

lemma extractParams_distinct:
  assumes "rx_match (patternItems pattern) reqPath = Some caps"
    and "distinct (declaredParams pattern)" and "''__proto__'' \<notin> set (declaredParams pattern)"
  shows "extractParams reqPath pattern = Inr (zip (declaredParams pattern) caps)"
proof -
  have "length caps = length (declaredParams pattern)"
    using rx_match_sound [OF assms(1)] by (simp add: groups_patternItems)
  then have "foldl setProperty [] (zip (declaredParams pattern) caps) = [] @ zip (declaredParams pattern) caps"
    using assms(2,3) by (intro fold_setProperty) simp_all
  then show ?thesis using assms(1) by (simp add: extractParams_def pathToRegex_eq)
qed

text \<open>
  Claim C6, as amended. For every path pattern, \<^verbatim>\<open>pathToRegex\<close> never fails and records
  exactly the parameter names the pattern declares, in declaration order; there are as many
  groups as names. A match is a match of the entire path: the path is the pattern with each
  parameter replaced by its capture, a non-empty run without a slash, one capture per
  declared parameter in order, and every such path matches. When the declared names are
  pairwise different and none is \<^verbatim>\<open>__proto__\<close>, \<^verbatim>\<open>extractParams\<close> binds each name to its capture,
  in order. \<^verbatim>\<open>/api/users/:id\<close> matches \<^verbatim>\<open>/api/users/123\<close> with \<^verbatim>\<open>{id: "123"}\<close> and rejects
  \<^verbatim>\<open>/api/users\<close> and \<^verbatim>\<open>/api/users/123/posts\<close>.
\<close>

theorem path_compilation:
  "pathToRegex pattern = Inr (patternItems pattern, declaredParams pattern)
   \<and> groups (patternItems pattern) = length (declaredParams pattern)
   \<and> (\<forall>reqPath caps. rx_match (patternItems pattern) reqPath = Some caps \<longrightarrow>
         length caps = length (declaredParams pattern)
         \<and> reqPath = fill (patternItems pattern) caps \<and> list_all segment caps
         \<and> (distinct (declaredParams pattern) \<and> ''__proto__'' \<notin> set (declaredParams pattern) \<longrightarrow>
              extractParams reqPath pattern = Inr (zip (declaredParams pattern) caps)))
   \<and> (\<forall>caps. length caps = length (declaredParams pattern) \<and> list_all segment caps \<longrightarrow>
         regex_test (patternItems pattern) (fill (patternItems pattern) caps))
   \<and> declaredParams ''/api/users/:id'' = [''id'']
   \<and> extractParams ''/api/users/123'' ''/api/users/:id'' = Inr [(''id'', ''123'')]
   \<and> regex_test (patternItems ''/api/users/:id'') ''/api/users/123''
   \<and> \<not> regex_test (patternItems ''/api/users/:id'') ''/api/users''
   \<and> \<not> regex_test (patternItems ''/api/users/:id'') ''/api/users/123/posts''"
proof -
  have a: "pathToRegex pattern = Inr (patternItems pattern, declaredParams pattern)"
    by (rule pathToRegex_eq)
  have b: "groups (patternItems pattern) = length (declaredParams pattern)"
    by (rule groups_patternItems)
  have c: "\<forall>reqPath caps. rx_match (patternItems pattern) reqPath = Some caps \<longrightarrow>
         length caps = length (declaredParams pattern)
         \<and> reqPath = fill (patternItems pattern) caps \<and> list_all segment caps
         \<and> (distinct (declaredParams pattern) \<and> ''__proto__'' \<notin> set (declaredParams pattern) \<longrightarrow>
              extractParams reqPath pattern = Inr (zip (declaredParams pattern) caps))"
    using rx_match_sound extractParams_distinct by (simp add: groups_patternItems [symmetric])
  have d: "\<forall>caps. length caps = length (declaredParams pattern) \<and> list_all segment caps \<longrightarrow>
         regex_test (patternItems pattern) (fill (patternItems pattern) caps)"
    using rx_match_complete by (simp add: regex_test_def groups_patternItems)
  have e: "declaredParams ''/api/users/:id'' = [''id'']"
    by (simp add: ident_start_def ident_char_def is_digit_def)
  have f: "extractParams ''/api/users/123'' ''/api/users/:id'' = Inr [(''id'', ''123'')]"
    by code_simp
  have g: "regex_test (patternItems ''/api/users/:id'') ''/api/users/123''"
    by code_simp
  have h: "\<not> regex_test (patternItems ''/api/users/:id'') ''/api/users''"
    by code_simp
  have i: "\<not> regex_test (patternItems ''/api/users/:id'') ''/api/users/123/posts''"
    by code_simp
  show ?thesis using a b c d e f g h i by blast
qed

theorem path_compilation_witness:
  "rx_match (patternItems ''/api/users/:userId/posts/:postId'') ''/api/users/7/posts/42'' = Some [''7'', ''42'']
   \<and> declaredParams ''/api/users/:userId/posts/:postId'' = [''userId'', ''postId'']
   \<and> ''/api/users/7/posts/42'' = fill (patternItems ''/api/users/:userId/posts/:postId'') [''7'', ''42'']
   \<and> extractParams ''/api/users/7/posts/42'' ''/api/users/:userId/posts/:postId''
       = Inr (zip (declaredParams ''/api/users/:userId/posts/:postId'') [''7'', ''42''])
   \<and> list_all segment [''7'', ''42'']
   \<and> regex_test (patternItems ''/api/users/:userId/posts/:postId'')
         (fill (patternItems ''/api/users/:userId/posts/:postId'') [''7'', ''42''])"
proof -
  let ?P = "''/api/users/:userId/posts/:postId''"
  have m: "rx_match (patternItems ?P) ''/api/users/7/posts/42'' = Some [''7'', ''42'']"
    by code_simp
  have n: "declaredParams ?P = [''userId'', ''postId'']"
    by code_simp
  have s: "list_all segment [''7'', ''42'']" by (simp add: segment_def)
  have dn: "distinct (declaredParams ?P) \<and> ''__proto__'' \<notin> set (declaredParams ?P)"
    unfolding n by simp
  have l: "length [''7'', ''42''] = length (declaredParams ?P)" unfolding n by simp
  note t = path_compilation [of ?P]
  from t have c: "\<forall>reqPath caps. rx_match (patternItems ?P) reqPath = Some caps \<longrightarrow>
         length caps = length (declaredParams ?P)
         \<and> reqPath = fill (patternItems ?P) caps \<and> list_all segment caps
         \<and> (distinct (declaredParams ?P) \<and> ''__proto__'' \<notin> set (declaredParams ?P) \<longrightarrow>
              extractParams reqPath ?P = Inr (zip (declaredParams ?P) caps))"
    by blast
  from t have d: "\<forall>caps. length caps = length (declaredParams ?P) \<and> list_all segment caps \<longrightarrow>
         regex_test (patternItems ?P) (fill (patternItems ?P) caps)"
    by blast
  from c m dn have 1: "''/api/users/7/posts/42'' = fill (patternItems ?P) [''7'', ''42'']"
    and 2: "extractParams ''/api/users/7/posts/42'' ?P = Inr (zip (declaredParams ?P) [''7'', ''42''])"
    by blast+
  from d l s have 3: "regex_test (patternItems ?P) (fill (patternItems ?P) [''7'', ''42''])"
    by blast
  show ?thesis using m n s 1 2 3 by blast
qed

text \<open>
  The claim as first stated fails when a name is declared twice: \<^verbatim>\<open>/:id/:id\<close> records two
  names and captures two segments of \<^verbatim>\<open>/1/2\<close>, but the extracted object has the single
  parameter \<^verbatim>\<open>id\<close>, bound to the second capture.
\<close>

theorem path_params_counterexample:
  "pathToRegex ''/:id/:id'' = Inr ([RxChar CHR ''/'', RxGroup, RxChar CHR ''/'', RxGroup], [''id'', ''id''])
   \<and> rx_match [RxChar CHR ''/'', RxGroup, RxChar CHR ''/'', RxGroup] ''/1/2'' = Some [''1'', ''2'']
   \<and> extractParams ''/1/2'' ''/:id/:id'' = Inr [(''id'', ''2'')]"
  by code_simp

lemma handleRequest_matched:
  assumes "matchRequest meth reqPath rs = Inr (Some m)"
  shows "handleRequest meth reqPath rs active hdr =
     Inr (Some (buildResponse
        (resolveScenario (resource m) (Some (case hdr of Some h \<Rightarrow> h | None \<Rightarrow> active)))
        (params m)))"
  using assms by (simp add: handleRequest_def Let_def)

lemma resolve_named:
  assumes "n \<noteq> []" and "\<exists>s\<in>set (scenarios res). name s = n"
  shows "find (\<lambda>s. name s = n) (scenarios res) = Some (resolveScenario res (Some n))"
proof -
  obtain s where s: "find (\<lambda>s. name s = n) (scenarios res) = Some s"
    using find_name_Some [OF assms(2)] by blast
  have "(\<lambda>s. Some (name s) = Some n) = (\<lambda>s. name s = n)" by auto
  then show ?thesis using assms(1) s by (simp add: resolveScenario_def)
qed

lemma resolve_default:
  assumes "n = [] \<or> \<not> (\<exists>s\<in>set (scenarios res). name s = n)"
    and "\<exists>s\<in>set (scenarios res). name s = ''default''"
  shows "find (\<lambda>s. name s = ''default'') (scenarios res) = Some (resolveScenario res (Some n))"
proof -
  obtain d where d: "find (\<lambda>s. name s = ''default'') (scenarios res) = Some d"
    using find_name_Some [OF assms(2)] by blast
  have eq: "(\<lambda>s. Some (name s) = Some n) = (\<lambda>s. name s = n)" by auto
  show ?thesis
  proof (cases "n = []")
    case True
    then show ?thesis using d by (simp add: resolveScenario_def)
  next
    case False
    then have "find (\<lambda>s. name s = n) (scenarios res) = None"
      using assms(1) find_name_None by blast
    then show ?thesis using False d by (simp add: resolveScenario_def eq)
  qed
qed

lemma resolve_first:
  assumes "n = [] \<or> \<not> (\<exists>s\<in>set (scenarios res). name s = n)"
    and "\<not> (\<exists>s\<in>set (scenarios res). name s = ''default'')"
  shows "resolveScenario res (Some n) = (case scenarios res of [] \<Rightarrow> fallbackScenario | s # ss \<Rightarrow> s)"
proof -
  have d: "find (\<lambda>s. name s = ''default'') (scenarios res) = None"
    using find_name_None [OF assms(2)] .
  have eq: "(\<lambda>s. Some (name s) = Some n) = (\<lambda>s. name s = n)" by auto
  show ?thesis
  proof (cases "n = []")
    case True
    then show ?thesis using d by (simp add: resolveScenario_def)
  next
    case False
    then have "find (\<lambda>s. name s = n) (scenarios res) = None"
      using assms(1) find_name_None by blast
    then show ?thesis using False d by (simp add: resolveScenario_def eq)
  qed
qed

lemma resolve_empty_name: "resolveScenario res (Some []) = resolveScenario res None"
  by (simp add: resolveScenario_def)

text \<open>
  Claim C1, as amended. For a matched request the scenario is resolved from one requested
  name, the override when the request carries one and the project's active scenario name
  otherwise: the first scenario of that name when the name is not empty and the resource
  has one; otherwise the resource's first scenario named \<^verbatim>\<open>default\<close>; otherwise its first
  declared scenario; and for a resource without scenarios the built-in fallback with status
  200, empty body, empty headers and zero delay. An override that names no scenario of the
  resource therefore falls through to \<^verbatim>\<open>default\<close>, not to the active scenario.
\<close>

theorem scenario_priority:
  assumes "matchRequest meth reqPath rs = Inr (Some m)"
    and "requested = (case hdr of Some h \<Rightarrow> h | None \<Rightarrow> active)"
    and "chosen = resolveScenario (resource m) (Some requested)"
    and "scs = scenarios (resource m)"
  shows "handleRequest meth reqPath rs active hdr = Inr (Some (buildResponse chosen (params m)))
    \<and> (requested \<noteq> [] \<and> (\<exists>s\<in>set scs. name s = requested) \<longrightarrow>
          find (\<lambda>s. name s = requested) scs = Some chosen \<and> name chosen = requested)
    \<and> ((requested = [] \<or> \<not> (\<exists>s\<in>set scs. name s = requested)) \<and> (\<exists>s\<in>set scs. name s = ''default'') \<longrightarrow>
          find (\<lambda>s. name s = ''default'') scs = Some chosen \<and> name chosen = ''default'')
    \<and> ((requested = [] \<or> \<not> (\<exists>s\<in>set scs. name s = requested)) \<and> \<not> (\<exists>s\<in>set scs. name s = ''default'')
          \<and> scs \<noteq> [] \<longrightarrow> chosen = hd scs)
    \<and> (scs = [] \<longrightarrow> chosen = fallbackScenario \<and> statusCode chosen = 200 \<and> body chosen = JObj []
          \<and> headers chosen = Some [] \<and> delay chosen = Some 0)"
proof -
  have a: "handleRequest meth reqPath rs active hdr = Inr (Some (buildResponse chosen (params m)))"
    using handleRequest_matched [OF assms(1)] assms(2,3) by simp
  have b: "requested \<noteq> [] \<and> (\<exists>s\<in>set scs. name s = requested) \<longrightarrow>
          find (\<lambda>s. name s = requested) scs = Some chosen \<and> name chosen = requested"
  proof
    assume h: "requested \<noteq> [] \<and> (\<exists>s\<in>set scs. name s = requested)"
    then have f: "find (\<lambda>s. name s = requested) scs = Some chosen"
      using resolve_named [of requested "resource m"] assms(3,4) by simp
    then have "name chosen = requested" by (auto simp: find_Some_iff)
    then show "find (\<lambda>s. name s = requested) scs = Some chosen \<and> name chosen = requested"
      using f by simp
  qed
  have c: "(requested = [] \<or> \<not> (\<exists>s\<in>set scs. name s = requested)) \<and> (\<exists>s\<in>set scs. name s = ''default'') \<longrightarrow>
          find (\<lambda>s. name s = ''default'') scs = Some chosen \<and> name chosen = ''default''"
  proof
    assume h: "(requested = [] \<or> \<not> (\<exists>s\<in>set scs. name s = requested)) \<and> (\<exists>s\<in>set scs. name s = ''default'')"
    then have f: "find (\<lambda>s. name s = ''default'') scs = Some chosen"
      using resolve_default [of requested "resource m"] assms(3,4) by simp
    then have "name chosen = ''default''" by (auto simp: find_Some_iff)
    then show "find (\<lambda>s. name s = ''default'') scs = Some chosen \<and> name chosen = ''default''"
      using f by simp
  qed
  have d: "(requested = [] \<or> \<not> (\<exists>s\<in>set scs. name s = requested)) \<and> \<not> (\<exists>s\<in>set scs. name s = ''default'')
          \<and> scs \<noteq> [] \<longrightarrow> chosen = hd scs"
    using resolve_first [of requested "resource m"] assms(3,4) by (auto split: list.splits)
  have e: "scs = [] \<longrightarrow> chosen = fallbackScenario \<and> statusCode chosen = 200 \<and> body chosen = JObj []
          \<and> headers chosen = Some [] \<and> delay chosen = Some 0"
    using resolve_first [of requested "resource m"] assms(3,4) by (auto simp: fallbackScenario_def)
  show ?thesis using a b c d e by blast
qed

lemma example_match:
  "matchRequest ''GET'' ''/api/test'' [exampleResource] = Inr (Some \<lparr> resource = exampleResource, params = [] \<rparr>)"
  by code_simp

theorem scenario_priority_witness:
  "matchRequest ''GET'' ''/api/test'' [exampleResource]
     = Inr (Some \<lparr> resource = exampleResource, params = [] \<rparr>)
   \<and> handleRequest ''GET'' ''/api/test'' [exampleResource] ''active'' (Some ''header'')
     = Inr (Some (buildResponse (resolveScenario exampleResource (Some ''header'')) []))
   \<and> find (\<lambda>s. name s = ''header'') (scenarios exampleResource)
     = Some (resolveScenario exampleResource (Some ''header''))
   \<and> name (resolveScenario exampleResource (Some ''header'')) = ''header''"
proof -
  have ex: "\<exists>s\<in>set (scenarios exampleResource). name s = ''header''"
    by (simp add: exampleResource_def)
  from scenario_priority [OF example_match, where requested = "''header''"
      and hdr = "Some ''header''" and active = "''active''"
      and chosen = "resolveScenario exampleResource (Some ''header'')"
      and scs = "scenarios exampleResource"] ex example_match
  show ?thesis by simp
qed

text \<open>
  The claim as first stated fails on the resource of the repository's own test: the
  override \<^verbatim>\<open>invalid\<close> matches no scenario, the active scenario \<^verbatim>\<open>active\<close> does, and the
  response is the one of \<^verbatim>\<open>default\<close>.
\<close>

theorem scenario_priority_counterexample:
  "find (\<lambda>s. name s = ''invalid'') (scenarios exampleResource) = None
   \<and> map_option name (find (\<lambda>s. name s = ''active'') (scenarios exampleResource)) = Some ''active''
   \<and> handleRequest ''GET'' ''/api/test'' [exampleResource] ''active'' (Some ''invalid'')
     = Inr (Some \<lparr> rc_statusCode = 200, rc_headers = [(''Content-Type'', ''application/json'')],
                    rc_body = JObj [(''scenario'', JStr ''default'')], rc_delay = 0,
                    rc_scenario = ''default'', rc_passthrough = None \<rparr>)"
  by code_simp

lemma buildResponse_scenario: "rc_scenario (buildResponse s ps) = name s"
  by (simp add: buildResponse_def)

text \<open>
  Claim C10, as amended. For a matched request, an override header equal to the empty
  string selects the scenario as if no name were requested at all (\<^verbatim>\<open>default\<close>, else the
  first scenario, else the fallback), whatever the active scenario is. When the active
  scenario name is not empty, is not \<^verbatim>\<open>default\<close> and names a scenario of the resource, the
  response differs from the one without the header if the resource has a \<^verbatim>\<open>default\<close>
  scenario or its first scenario is not the active one; when it has no \<^verbatim>\<open>default\<close> scenario
  and its first scenario is the active one, both responses are the same.
\<close>

theorem empty_override:
  assumes "matchRequest meth reqPath rs = Inr (Some m)"
    and "scs = scenarios (resource m)"
  shows "handleRequest meth reqPath rs active (Some [])
           = Inr (Some (buildResponse (resolveScenario (resource m) None) (params m)))
    \<and> (active \<noteq> [] \<and> active \<noteq> ''default'' \<and> (\<exists>s\<in>set scs. name s = active)
         \<and> ((\<exists>s\<in>set scs. name s = ''default'') \<or> name (hd scs) \<noteq> active) \<longrightarrow>
          handleRequest meth reqPath rs active (Some []) \<noteq> handleRequest meth reqPath rs active None)
    \<and> (active \<noteq> [] \<and> \<not> (\<exists>s\<in>set scs. name s = ''default'') \<and> scs \<noteq> [] \<and> name (hd scs) = active \<longrightarrow>
          handleRequest meth reqPath rs active (Some []) = handleRequest meth reqPath rs active None)"
proof -
  let ?e = "resolveScenario (resource m) (Some [])"
  let ?a = "resolveScenario (resource m) (Some active)"
  have he: "handleRequest meth reqPath rs active (Some []) = Inr (Some (buildResponse ?e (params m)))"
    using handleRequest_matched [OF assms(1), of active "Some []"] by simp
  have ha: "handleRequest meth reqPath rs active None = Inr (Some (buildResponse ?a (params m)))"
    using handleRequest_matched [OF assms(1), of active None] by simp
  have a: "handleRequest meth reqPath rs active (Some [])
           = Inr (Some (buildResponse (resolveScenario (resource m) None) (params m)))"
    using he by (simp add: resolve_empty_name)
  have b: "active \<noteq> [] \<and> active \<noteq> ''default'' \<and> (\<exists>s\<in>set scs. name s = active)
         \<and> ((\<exists>s\<in>set scs. name s = ''default'') \<or> name (hd scs) \<noteq> active) \<longrightarrow>
          handleRequest meth reqPath rs active (Some []) \<noteq> handleRequest meth reqPath rs active None"
  proof
    assume h: "active \<noteq> [] \<and> active \<noteq> ''default'' \<and> (\<exists>s\<in>set scs. name s = active)
         \<and> ((\<exists>s\<in>set scs. name s = ''default'') \<or> name (hd scs) \<noteq> active)"
    have "find (\<lambda>s. name s = active) (scenarios (resource m)) = Some ?a"
      using h assms(2) resolve_named [of active "resource m"] by simp
    then have na: "name ?a = active" by (auto simp: find_Some_iff)
    have ne: "name ?e \<noteq> active"
    proof (cases "\<exists>s\<in>set scs. name s = ''default''")
      case True
      then have "find (\<lambda>s. name s = ''default'') (scenarios (resource m)) = Some ?e"
        using assms(2) resolve_default [of "[]" "resource m"] by simp
      then have "name ?e = ''default''" by (auto simp: find_Some_iff)
      then show ?thesis using h by auto
    next
      case False
      then have hd: "name (hd scs) \<noteq> active" and ne: "scs \<noteq> []" using h by auto
      have "?e = (case scenarios (resource m) of [] \<Rightarrow> fallbackScenario | s # ss \<Rightarrow> s)"
        using False assms(2) resolve_first [of "[]" "resource m"] by simp
      then have "?e = hd scs" using ne assms(2) by (auto split: list.splits)
      then show ?thesis using hd by simp
    qed
    have "rc_scenario (buildResponse ?e (params m)) \<noteq> rc_scenario (buildResponse ?a (params m))"
      using na ne by (simp add: buildResponse_scenario)
    then have "buildResponse ?e (params m) \<noteq> buildResponse ?a (params m)" by auto
    then show "handleRequest meth reqPath rs active (Some []) \<noteq> handleRequest meth reqPath rs active None"
      using he ha by simp
  qed
  have c: "active \<noteq> [] \<and> \<not> (\<exists>s\<in>set scs. name s = ''default'') \<and> scs \<noteq> [] \<and> name (hd scs) = active \<longrightarrow>
          handleRequest meth reqPath rs active (Some []) = handleRequest meth reqPath rs active None"
  proof
    assume h: "active \<noteq> [] \<and> \<not> (\<exists>s\<in>set scs. name s = ''default'') \<and> scs \<noteq> [] \<and> name (hd scs) = active"
    then obtain s ss where sc0: "scs = s # ss" by (cases scs) auto
    have sc: "scenarios (resource m) = s # ss" "name s = active"
      using h sc0 assms(2) by simp_all
    have "?e = (case scenarios (resource m) of [] \<Rightarrow> fallbackScenario | s # ss \<Rightarrow> s)"
      using h assms(2) resolve_first [of "[]" "resource m"] by simp
    then have e: "?e = s" using sc by simp
    have "find (\<lambda>s. name s = active) (scenarios (resource m)) = Some ?a"
      using h sc resolve_named [of active "resource m"] by simp
    then have "?a = s" using sc by simp
    then show "handleRequest meth reqPath rs active (Some []) = handleRequest meth reqPath rs active None"
      using he ha e by simp
  qed
  show ?thesis using a b c by blast
qed

theorem empty_override_witness:
  "matchRequest ''GET'' ''/api/test'' [exampleResource]
     = Inr (Some \<lparr> resource = exampleResource, params = [] \<rparr>)
   \<and> handleRequest ''GET'' ''/api/test'' [exampleResource] ''active'' (Some [])
     = Inr (Some (buildResponse (resolveScenario exampleResource None) []))
   \<and> handleRequest ''GET'' ''/api/test'' [exampleResource] ''active'' (Some [])
     \<noteq> handleRequest ''GET'' ''/api/test'' [exampleResource] ''active'' None"
proof -
  have h: "''active'' \<noteq> [] \<and> ''active'' \<noteq> ''default''
      \<and> (\<exists>s\<in>set (scenarios exampleResource). name s = ''active'')
      \<and> ((\<exists>s\<in>set (scenarios exampleResource). name s = ''default'')
          \<or> name (hd (scenarios exampleResource)) \<noteq> ''active'')"
    by (simp add: exampleResource_def)
  have r: "resource \<lparr> resource = exampleResource, params = [] \<rparr> = exampleResource"
    "params \<lparr> resource = exampleResource, params = [] \<rparr> = []"
    by simp_all
  note t = empty_override [OF example_match refl, where active = "''active''", unfolded r]
  from t h example_match show ?thesis by blast
qed

text \<open>
  The claim as first stated fails on a resource whose only scenario is \<^verbatim>\<open>custom\<close>: the
  active scenario \<^verbatim>\<open>custom\<close> exists and is not named \<^verbatim>\<open>default\<close>, and the empty override gives
  the same response as no override.
\<close>

theorem empty_override_counterexample:
  "map_option name (find (\<lambda>s. name s = ''custom'') (scenarios customResource)) = Some ''custom''
   \<and> ''custom'' \<noteq> ''default''
   \<and> handleRequest ''GET'' ''/api/users'' [customResource] ''custom'' (Some [])
     = handleRequest ''GET'' ''/api/users'' [customResource] ''custom'' None
   \<and> handleRequest ''GET'' ''/api/users'' [customResource] ''custom'' None
     = Inr (Some \<lparr> rc_statusCode = 200, rc_headers = [(''Content-Type'', ''application/json'')],
                    rc_body = JObj [], rc_delay = 0,
                    rc_scenario = ''custom'', rc_passthrough = None \<rparr>)"
  by code_simp


subsection \<open>Request handlers\<close>







subsection \<open>Leaf certificates\<close>


lemma dot_not_digit: "\<not> is_digit CHR ''.''"
  by (simp add: is_digit_def)

lemma digits1_Some:
  "digits1 s = Some r \<longleftrightarrow> (\<exists>a. numeric a \<and> s = a @ r \<and> (r = [] \<or> \<not> is_digit (hd r)))"
proof
  assume h: "digits1 s = Some r"
  then have s: "s \<noteq> []" "is_digit (hd s)" "r = dropWhile is_digit s"
    by (auto simp: digits1_def split: if_splits)
  let ?a = "takeWhile is_digit s"
  have "?a \<noteq> []" using s by (cases s) auto
  moreover have "list_all is_digit ?a" by (auto simp: list_all_iff dest: set_takeWhileD)
  moreover have "s = ?a @ r" using s by simp
  moreover have "r = [] \<or> \<not> is_digit (hd r)" using s(3) by (metis hd_dropWhile)
  ultimately show "\<exists>a. numeric a \<and> s = a @ r \<and> (r = [] \<or> \<not> is_digit (hd r))"
    unfolding numeric_def by blast
next
  assume "\<exists>a. numeric a \<and> s = a @ r \<and> (r = [] \<or> \<not> is_digit (hd r))"
  then obtain a where a: "numeric a" "s = a @ r" "r = [] \<or> \<not> is_digit (hd r)" by blast
  have "dropWhile is_digit (a @ r) = dropWhile is_digit r"
    using a(1) by (intro dropWhile_append2) (auto simp: numeric_def list_all_iff)
  also have "\<dots> = r" using a(3) by (cases r) auto
  finally have "dropWhile is_digit s = r" using a(2) by simp
  moreover have "s \<noteq> [] \<and> is_digit (hd s)"
    using a(1,2) by (cases a) (auto simp: numeric_def)
  ultimately show "digits1 s = Some r" by (simp add: digits1_def)
qed

lemma dot1_Some: "dot1 s = Some r \<longleftrightarrow> s = CHR ''.'' # r"
  by (cases s) (auto simp: dot1_def)

lemma numeric_unique:
  assumes "numeric a" and "numeric a'" and "a @ CHR ''.'' # r = a' @ CHR ''.'' # r'"
  shows "a = a' \<and> r = r'"
proof -
  have "takeWhile is_digit (a @ CHR ''.'' # r) = a"
    using assms(1) by (simp add: numeric_def list_all_iff takeWhile_append2 dot_not_digit)
  moreover have "takeWhile is_digit (a' @ CHR ''.'' # r') = a'"
    using assms(2) by (simp add: numeric_def list_all_iff takeWhile_append2 dot_not_digit)
  ultimately have "a = a'" using assms(3) by simp
  then show ?thesis using assms(3) by simp
qed

lemma step_digits_dot:
  "Option.bind (digits1 s) dot1 = Some r \<longleftrightarrow> (\<exists>a. numeric a \<and> s = a @ CHR ''.'' # r)"
proof
  assume "Option.bind (digits1 s) dot1 = Some r"
  then obtain m where m: "digits1 s = Some m" "dot1 m = Some r"
    by (auto simp: bind_eq_Some_conv)
  then show "\<exists>a. numeric a \<and> s = a @ CHR ''.'' # r"
    by (auto simp: digits1_Some dot1_Some)
next
  assume "\<exists>a. numeric a \<and> s = a @ CHR ''.'' # r"
  then obtain a where a: "numeric a" "s = a @ CHR ''.'' # r" by blast
  then have "digits1 s = Some (CHR ''.'' # r)"
    by (auto simp: digits1_Some dot_not_digit)
  then show "Option.bind (digits1 s) dot1 = Some r" by (simp add: dot1_def)
qed

lemma isIpPattern_steps:
  "isIpPattern s \<longleftrightarrow>
     (\<exists>r1 r2 r3. Option.bind (digits1 s) dot1 = Some r1 \<and> Option.bind (digits1 r1) dot1 = Some r2
        \<and> Option.bind (digits1 r2) dot1 = Some r3 \<and> digits1 r3 = Some [])"
  unfolding isIpPattern_def
  by (auto simp: bind_eq_Some_conv split: option.splits)

lemma isIpPattern_dottedQuad: "isIpPattern s \<longleftrightarrow> dottedQuad s"
proof
  assume "isIpPattern s"
  then obtain r1 r2 r3 where r: "Option.bind (digits1 s) dot1 = Some r1"
    "Option.bind (digits1 r1) dot1 = Some r2" "Option.bind (digits1 r2) dot1 = Some r3"
    "digits1 r3 = Some []"
    unfolding isIpPattern_steps by blast
  obtain a where a: "numeric a" "s = a @ CHR ''.'' # r1" using r(1) step_digits_dot by blast
  obtain b where b: "numeric b" "r1 = b @ CHR ''.'' # r2" using r(2) step_digits_dot by blast
  obtain c where c: "numeric c" "r2 = c @ CHR ''.'' # r3" using r(3) step_digits_dot by blast
  have d: "numeric r3" using r(4) by (auto simp: digits1_Some)
  have "s = a @ ''.'' @ b @ ''.'' @ c @ ''.'' @ r3" using a b c by simp
  then show "dottedQuad s" unfolding dottedQuad_def using a(1) b(1) c(1) d by blast
next
  assume "dottedQuad s"
  then obtain a b c d where q: "s = a @ ''.'' @ b @ ''.'' @ c @ ''.'' @ d"
    "numeric a" "numeric b" "numeric c" "numeric d"
    unfolding dottedQuad_def by blast
  have 1: "Option.bind (digits1 s) dot1 = Some (b @ ''.'' @ c @ ''.'' @ d)"
    unfolding step_digits_dot using q(1,2) by auto
  have 2: "Option.bind (digits1 (b @ ''.'' @ c @ ''.'' @ d)) dot1 = Some (c @ ''.'' @ d)"
    unfolding step_digits_dot using q(3) by auto
  have 3: "Option.bind (digits1 (c @ ''.'' @ d)) dot1 = Some d"
    unfolding step_digits_dot using q(4) by auto
  have 4: "digits1 d = Some []" unfolding digits1_Some using q(5) by auto
  show "isIpPattern s" unfolding isIpPattern_steps using 1 2 3 4 by blast
qed

lemma uniqueInOrder_acc:
  "set (foldl (\<lambda>seen x. if x \<in> set seen then seen else seen @ [x]) acc xs) = set acc \<union> set xs"
  by (induction xs arbitrary: acc) auto

lemma set_uniqueInOrder: "set (uniqueInOrder xs) = set xs"
  by (simp add: uniqueInOrder_def uniqueInOrder_acc)

text \<open>
  Claim C7. Every leaf certificate that \<^verbatim>\<open>generateServerCert\<close> issues has the subject of the
  CA certificate as its issuer and \<^verbatim>\<open>basicConstraints.cA = false\<close>; among its subject
  alternative names are the DNS name \<^verbatim>\<open>localhost\<close> and the IP address \<^verbatim>\<open>127.0.0.1\<close>, whatever
  the requested domains, and every requested domain, as an IP address when it is a dotted
  quad and as a DNS name otherwise; no name is classified the other way. A certificate is
  issued whenever the CA certificate and key parse.
\<close>

theorem leaf_certificate:
  "(generateServerCert certificateFromPem privateKeyFromPem serial ca domains = Inr leaf \<longrightarrow>
       certificateFromPem (cert ca) = Some (issuer leaf)
     \<and> \<not> basicConstraints_cA leaf
     \<and> DnsName ''localhost'' \<in> set (altNames leaf)
     \<and> IpAddress ''127.0.0.1'' \<in> set (altNames leaf)
     \<and> (\<forall>d\<in>set domains. if dottedQuad d then IpAddress d \<in> set (altNames leaf)
                                         else DnsName d \<in> set (altNames leaf))
     \<and> (\<forall>d. IpAddress d \<in> set (altNames leaf) \<longrightarrow> dottedQuad d)
     \<and> (\<forall>d. DnsName d \<in> set (altNames leaf) \<longrightarrow> \<not> dottedQuad d))
   \<and> (certificateFromPem (cert ca) \<noteq> None \<and> privateKeyFromPem (privateKey ca) \<noteq> None \<longrightarrow>
       (\<exists>issued. generateServerCert certificateFromPem privateKeyFromPem serial ca domains = Inr issued))"
proof -
  have ip: "isIpPattern ''127.0.0.1''" by code_simp
  have lh: "\<not> isIpPattern ''localhost''" by code_simp
  have a: "generateServerCert certificateFromPem privateKeyFromPem serial ca domains = Inr leaf \<longrightarrow>
       certificateFromPem (cert ca) = Some (issuer leaf)
     \<and> \<not> basicConstraints_cA leaf
     \<and> DnsName ''localhost'' \<in> set (altNames leaf)
     \<and> IpAddress ''127.0.0.1'' \<in> set (altNames leaf)
     \<and> (\<forall>d\<in>set domains. if dottedQuad d then IpAddress d \<in> set (altNames leaf)
                                         else DnsName d \<in> set (altNames leaf))
     \<and> (\<forall>d. IpAddress d \<in> set (altNames leaf) \<longrightarrow> dottedQuad d)
     \<and> (\<forall>d. DnsName d \<in> set (altNames leaf) \<longrightarrow> \<not> dottedQuad d)"
  proof
    assume g: "generateServerCert certificateFromPem privateKeyFromPem serial ca domains = Inr leaf"
    then obtain subj key where p: "certificateFromPem (cert ca) = Some subj"
      "privateKeyFromPem (privateKey ca) = Some key"
      by (auto simp: generateServerCert_def split: option.splits)
    have iss: "issuer leaf = subj" and ca: "\<not> basicConstraints_cA leaf"
      and an: "altNames leaf = map toAltName (uniqueInOrder ([''localhost'', ''127.0.0.1''] @ domains))"
      using g p by (auto simp: generateServerCert_def Let_def)
    have names: "set (altNames leaf) = toAltName ` ({''localhost'', ''127.0.0.1''} \<union> set domains)"
      unfolding an by (simp add: set_uniqueInOrder)
    have 1: "DnsName ''localhost'' \<in> set (altNames leaf)"
      unfolding names using lh by (auto simp: toAltName_def image_iff)
    have 2: "IpAddress ''127.0.0.1'' \<in> set (altNames leaf)"
      unfolding names using ip by (auto simp: toAltName_def image_iff)
    have 3: "\<forall>d\<in>set domains. if dottedQuad d then IpAddress d \<in> set (altNames leaf)
                                         else DnsName d \<in> set (altNames leaf)"
    proof
      fix d assume "d \<in> set domains"
      then have "toAltName d \<in> set (altNames leaf)" unfolding names by blast
      then show "if dottedQuad d then IpAddress d \<in> set (altNames leaf)
                                         else DnsName d \<in> set (altNames leaf)"
        by (auto simp: toAltName_def isIpPattern_dottedQuad split: if_splits)
    qed
    have 4: "\<forall>d. IpAddress d \<in> set (altNames leaf) \<longrightarrow> dottedQuad d"
      unfolding names by (auto simp: toAltName_def isIpPattern_dottedQuad split: if_splits)
    have 5: "\<forall>d. DnsName d \<in> set (altNames leaf) \<longrightarrow> \<not> dottedQuad d"
      unfolding names by (auto simp: toAltName_def isIpPattern_dottedQuad split: if_splits)
    show "certificateFromPem (cert ca) = Some (issuer leaf)
     \<and> \<not> basicConstraints_cA leaf
     \<and> DnsName ''localhost'' \<in> set (altNames leaf)
     \<and> IpAddress ''127.0.0.1'' \<in> set (altNames leaf)
     \<and> (\<forall>d\<in>set domains. if dottedQuad d then IpAddress d \<in> set (altNames leaf)
                                         else DnsName d \<in> set (altNames leaf))
     \<and> (\<forall>d. IpAddress d \<in> set (altNames leaf) \<longrightarrow> dottedQuad d)
     \<and> (\<forall>d. DnsName d \<in> set (altNames leaf) \<longrightarrow> \<not> dottedQuad d)"
      using p(1) iss ca 1 2 3 4 5 by blast
  qed
  have b: "certificateFromPem (cert ca) \<noteq> None \<and> privateKeyFromPem (privateKey ca) \<noteq> None \<longrightarrow>
       (\<exists>issued. generateServerCert certificateFromPem privateKeyFromPem serial ca domains = Inr issued)"
    by (auto simp: generateServerCert_def Let_def)
  show ?thesis using a b by blast
qed

theorem leaf_certificate_witness:
  "generateServerCert (\<lambda>pem. Some [(''commonName'', ''MockMate CA'')]) Some ''01''
      \<lparr>cert = ''ca-pem'', privateKey = ''ca-key''\<rparr> [''api.example.com'', ''10.0.0.5'']
    = Inr \<lparr> serialNumber = ''01'', validityYears = 1,
            subject = [(''commonName'', ''MockMate Server''), (''organizationName'', ''MockMate''),
                       (''countryName'', ''US'')],
            issuer = [(''commonName'', ''MockMate CA'')],
            basicConstraints_cA = False,
            keyUsage = [''digitalSignature'', ''keyEncipherment''],
            extKeyUsage = [''serverAuth''],
            altNames = [DnsName ''localhost'', IpAddress ''127.0.0.1'',
                        DnsName ''api.example.com'', IpAddress ''10.0.0.5''],
            signingKey = ''ca-key'' \<rparr>
   \<and> dottedQuad ''10.0.0.5'' \<and> \<not> dottedQuad ''api.example.com''"
proof -
  let ?leaf = "\<lparr> serialNumber = ''01'', validityYears = 1,
            subject = [(''commonName'', ''MockMate Server''), (''organizationName'', ''MockMate''),
                       (''countryName'', ''US'')],
            issuer = [(''commonName'', ''MockMate CA'')],
            basicConstraints_cA = False,
            keyUsage = [''digitalSignature'', ''keyEncipherment''],
            extKeyUsage = [''serverAuth''],
            altNames = [DnsName ''localhost'', IpAddress ''127.0.0.1'',
                        DnsName ''api.example.com'', IpAddress ''10.0.0.5''],
            signingKey = ''ca-key'' \<rparr>"
  have g: "generateServerCert (\<lambda>pem. Some [(''commonName'', ''MockMate CA'')]) Some ''01''
      \<lparr>cert = ''ca-pem'', privateKey = ''ca-key''\<rparr> [''api.example.com'', ''10.0.0.5'']
    = Inr ?leaf"
    by code_simp
  note t = leaf_certificate [of "\<lambda>pem. Some [(''commonName'', ''MockMate CA'')]" Some "''01''"
      "\<lparr>cert = ''ca-pem'', privateKey = ''ca-key''\<rparr>" "[''api.example.com'', ''10.0.0.5'']" ?leaf]
  note u = t [THEN conjunct1, THEN mp, OF g]
  note ip = u [THEN conjunct2, THEN conjunct2, THEN conjunct2, THEN conjunct2, THEN conjunct2,
      THEN conjunct1, THEN spec, of "''10.0.0.5''"]
  note dns = u [THEN conjunct2, THEN conjunct2, THEN conjunct2, THEN conjunct2, THEN conjunct2,
      THEN conjunct2, THEN spec, of "''api.example.com''"]
  have 1: "dottedQuad ''10.0.0.5''" using ip by simp
  have 2: "\<not> dottedQuad ''api.example.com''" using dns by simp
  show ?thesis using g 1 2 by (intro conjI)
qed


subsection \<open>Request framing in the MITM tunnel\<close>





lemma terminator_length: "length headerTerminator = 4"
  by (simp add: headerTerminator_def)




lemma terminatorAt_bound: "terminatorAt buf j \<Longrightarrow> j + 4 \<le> length buf"
proof -
  assume "terminatorAt buf j"
  then have "length (take 4 (drop j buf)) = 4" by (simp add: terminatorAt_def terminator_length)
  then show ?thesis by simp
qed












subsection \<open>Upstream forwarder\<close>














end
